theory Spec2Isabelle
  imports Main "HOL-Library.Finite_Map" "HOL-Library.Char_ord" "HOL-Library.List_Lexorder"
begin

section \<open>The bundle index of pkg/repo/index.go\<close>

text \<open>
  The index maps a bundle name to the versions recorded for it, and each version to a
  digest: \<^verbatim>\<open>type Index map[string]map[string]string\<close>. A Go map is a finite map with
  unique keys, so both levels are finite maps. Go strings are byte strings, as HOL's.
\<close>

type_synonym tags = "(string, string) fmap"

type_synonym Index = "(string, tags) fmap"

subsection \<open>What the code takes from outside\<close>

text \<open>
  The package github.com/Masterminds/semver is a dependency, not part of the sources. The
  index uses three of its functions, which are parameters here:
  \<^verbatim>\<open>NewConstraint(string) (*Constraints, error)\<close>, \<^verbatim>\<open>NewVersion(string) (*Version, error)\<close>
  and \<^verbatim>\<open>(Constraints) Check(*Version) bool\<close>. A parser that returns an error is
  \<open>None\<close>; with it Go returns the nil pointer.
\<close>

record ('c, 'v) semver =
  NewConstraint :: "string \<Rightarrow> 'c option"
  NewVersion :: "string \<Rightarrow> 'v option"
  Check :: "'c \<Rightarrow> 'v \<Rightarrow> bool"

text \<open>
  A \<^verbatim>\<open>range\<close> statement over a Go map visits every entry once, in an order the language
  leaves open and that may change from one execution of the statement to the next. Each
  execution of a \<^verbatim>\<open>range\<close> is therefore given a function from the map to the list of
  its entries in the order visited; \<open>ranges r\<close> says that \<open>r\<close> is such a function.
  Every order of the entries of one map is the value of such a function
  (\<open>ranges_extend\<close> below).
\<close>

definition ranges :: "(('k, 'a) fmap \<Rightarrow> ('k \<times> 'a) list) \<Rightarrow> bool" where
  "ranges r \<longleftrightarrow> (\<forall>m. distinct (map fst (r m)) \<and> map_of (r m) = fmlookup m)"

subsection \<open>Errors\<close>

text \<open>
  \<open>ErrNoBundleVersion\<close> and \<open>ErrNoBundleName\<close> are the package's error values;
  \<open>ErrConstraint\<close> is the error \<^verbatim>\<open>semver.NewConstraint\<close> returned, passed on by
  \<^verbatim>\<open>Get\<close>; \<open>NilDereference\<close> is the run-time panic of calling \<^verbatim>\<open>Check\<close> through a
  nil constraint, which ends the run.
\<close>

datatype error = ErrNoBundleVersion | ErrNoBundleName | ErrConstraint | NilDereference

subsection \<open>Add\<close>

text \<open>
  \<^verbatim>\<open>
  func (i Index) Add(name, version string, digest string) {
      if tags, ok := i[name]; ok {
          tags[version] = digest
      } else {
          i[name] = map[string]string{version: digest}
      }
  }
  \<close>
  The inner map is updated in place; the model returns the index with the updated map
  under \<open>name\<close>.
\<close>

definition Add :: "Index \<Rightarrow> string \<Rightarrow> string \<Rightarrow> string \<Rightarrow> Index" where
  "Add i name version digest =
     (case fmlookup i name of
        Some tags \<Rightarrow> fmupd name (fmupd version digest tags) i
      | None \<Rightarrow> fmupd name (fmupd version digest fmempty) i)"

subsection \<open>Get and Has\<close>

text \<open>
  The loop of \<^verbatim>\<open>Get\<close> over the entries of \<^verbatim>\<open>vs\<close> in the order visited:
  \<^verbatim>\<open>
  for ver, digest := range vs {
      test, err := semver.NewVersion(ver)
      if err != nil { continue }
      if constraint.Check(test) { return digest, nil }
  }
  return "", ErrNoBundleVersion
  \<close>
  \<open>constraint\<close> is the pointer the loop holds: \<open>None\<close> when it is nil.
\<close>

fun Get_range :: "('c, 'v) semver \<Rightarrow> 'c option \<Rightarrow> (string \<times> string) list \<Rightarrow> error + string" where
  "Get_range sv constraint [] = Inl ErrNoBundleVersion"
| "Get_range sv constraint ((ver, digest) # rest) =
     (case NewVersion sv ver of
        None \<Rightarrow> Get_range sv constraint rest
      | Some test \<Rightarrow>
          (case constraint of
             None \<Rightarrow> Inl NilDereference
           | Some c \<Rightarrow> if Check sv c test then Inr digest else Get_range sv constraint rest))"

text \<open>
  \<^verbatim>\<open>
  func (i Index) Get(name, version string) (string, error) {
      vs, ok := i[name]
      if !ok { return "", ErrNoBundleName }
      if len(vs) == 0 { return "", ErrNoBundleVersion }
      var constraint *semver.Constraints
      if len(version) == 0 {
          constraint, _ = semver.NewConstraint("*")
      } else {
          var err error
          constraint, err = semver.NewConstraint(version)
          if err != nil { return "", err }
      }
      ... the loop ...
  }
  \<close>
  \<open>r\<close> is the order in which this call's \<^verbatim>\<open>range\<close> visits \<open>vs\<close>. With an error Go
  returns the empty string beside it; the model returns the error alone.
\<close>

definition Get :: "('c, 'v) semver \<Rightarrow> (tags \<Rightarrow> (string \<times> string) list) \<Rightarrow> Index \<Rightarrow> string \<Rightarrow> string
    \<Rightarrow> error + string" where
  "Get sv r i name version =
     (case fmlookup i name of
        None \<Rightarrow> Inl ErrNoBundleName
      | Some vs \<Rightarrow>
          if vs = fmempty then Inl ErrNoBundleVersion
          else if version = [] then Get_range sv (NewConstraint sv ''*'') (r vs)
          else (case NewConstraint sv version of
                  None \<Rightarrow> Inl ErrConstraint
                | Some c \<Rightarrow> Get_range sv (Some c) (r vs)))"

text \<open>
  \<^verbatim>\<open>
  func (i Index) Has(name, version string) bool {
      _, err := i.Get(name, version)
      return err == nil
  }
  \<close>
  A panic in \<^verbatim>\<open>Get\<close> is not an error value: \<^verbatim>\<open>Has\<close> does not return then.
\<close>

definition Has :: "('c, 'v) semver \<Rightarrow> (tags \<Rightarrow> (string \<times> string) list) \<Rightarrow> Index \<Rightarrow> string \<Rightarrow> string
    \<Rightarrow> error + bool" where
  "Has sv r i name version =
     (case Get sv r i name version of
        Inr _ \<Rightarrow> Inr True
      | Inl NilDereference \<Rightarrow> Inl NilDereference
      | Inl _ \<Rightarrow> Inr False)"

subsection \<open>Merge\<close>

text \<open>
  \<^verbatim>\<open>
  func (i *Index) Merge(src Index) {
      for name, versionMap := range src {
          for version, digest := range versionMap {
              if !i.Has(name, version) {
                  i.Add(name, version, digest)
              }
          }
      }
  }
  \<close>
  Three kinds of \<^verbatim>\<open>range\<close> run here, each execution with an order of its own: the
  outer loop over \<open>src\<close> runs once (\<open>nr\<close>); the inner loop runs once for each name
  (\<open>vr name\<close>); the loop inside \<^verbatim>\<open>Get\<close> runs at most once for each pair of the
  source, in the call of \<^verbatim>\<open>Has\<close> for that pair (\<open>hs name version\<close>). A panic in
  \<^verbatim>\<open>Has\<close> ends the run.
\<close>

fun Merge_versions :: "('c, 'v) semver \<Rightarrow> (string \<Rightarrow> string \<Rightarrow> tags \<Rightarrow> (string \<times> string) list)
    \<Rightarrow> string \<Rightarrow> Index \<Rightarrow> (string \<times> string) list \<Rightarrow> error + Index" where
  "Merge_versions sv hs name i [] = Inr i"
| "Merge_versions sv hs name i ((version, digest) # rest) =
     (case Has sv (hs name version) i name version of
        Inl e \<Rightarrow> Inl e
      | Inr has \<Rightarrow>
          Merge_versions sv hs name (if \<not> has then Add i name version digest else i) rest)"

fun Merge_names :: "('c, 'v) semver \<Rightarrow> (string \<Rightarrow> tags \<Rightarrow> (string \<times> string) list)
    \<Rightarrow> (string \<Rightarrow> string \<Rightarrow> tags \<Rightarrow> (string \<times> string) list)
    \<Rightarrow> Index \<Rightarrow> (string \<times> tags) list \<Rightarrow> error + Index" where
  "Merge_names sv vr hs i [] = Inr i"
| "Merge_names sv vr hs i ((name, versionMap) # rest) =
     (case Merge_versions sv hs name i (vr name versionMap) of
        Inl e \<Rightarrow> Inl e
      | Inr i' \<Rightarrow> Merge_names sv vr hs i' rest)"

definition Merge :: "('c, 'v) semver \<Rightarrow> (Index \<Rightarrow> (string \<times> tags) list)
    \<Rightarrow> (string \<Rightarrow> tags \<Rightarrow> (string \<times> string) list)
    \<Rightarrow> (string \<Rightarrow> string \<Rightarrow> tags \<Rightarrow> (string \<times> string) list)
    \<Rightarrow> Index \<Rightarrow> Index \<Rightarrow> error + Index" where
  "Merge sv nr vr hs i src = Merge_names sv vr hs i (nr src)"

text \<open>
  The triples of the source in the order the two nested loops visit them, and the merge
  as the specification words it: for every triple of the source, if the receiving index
  does not have the pair (checked via \<^verbatim>\<open>Has\<close>), add it.
\<close>

definition visited :: "(Index \<Rightarrow> (string \<times> tags) list) \<Rightarrow> (string \<Rightarrow> tags \<Rightarrow> (string \<times> string) list)
    \<Rightarrow> Index \<Rightarrow> (string \<times> string \<times> string) list" where
  "visited nr vr src =
     concat (map (\<lambda>(name, versionMap).
       map (\<lambda>(version, digest). (name, version, digest)) (vr name versionMap)) (nr src))"

fun fill_gaps :: "('c, 'v) semver \<Rightarrow> (string \<Rightarrow> string \<Rightarrow> tags \<Rightarrow> (string \<times> string) list)
    \<Rightarrow> Index \<Rightarrow> (string \<times> string \<times> string) list \<Rightarrow> error + Index" where
  "fill_gaps sv hs i [] = Inr i"
| "fill_gaps sv hs i ((name, version, digest) # rest) =
     (case Has sv (hs name version) i name version of
        Inl e \<Rightarrow> Inl e
      | Inr True \<Rightarrow> fill_gaps sv hs i rest
      | Inr False \<Rightarrow> fill_gaps sv hs (Add i name version digest) rest)"

subsection \<open>loadIndex\<close>

text \<open>
  \<^verbatim>\<open>
  func loadIndex(r io.Reader) (Index, error) {
      i := Index{}
      if err := json.NewDecoder(r).Decode(&i); err != nil && err != io.EOF {
          return i, err
      }
      return i, nil
  }
  \<close>
  The decoder is the standard library's (encoding/json), a parameter here: from the bytes
  of the stream and the value of the target before the call it gives the value of the
  target after the call and the error, \<open>None\<close> for nil. \<open>EOF\<close> is \<^verbatim>\<open>io.EOF\<close>;
  \<open>Malformed\<close> stands for every other error of the decoder.
\<close>

datatype decode_error = EOF | Malformed

definition loadIndex :: "(string \<Rightarrow> Index \<Rightarrow> Index \<times> decode_error option) \<Rightarrow> string
    \<Rightarrow> Index \<times> decode_error option" where
  "loadIndex Decode r =
     (case Decode r fmempty of
        (i, err) \<Rightarrow> if err \<noteq> None \<and> err \<noteq> Some EOF then (i, err) else (i, None))"

subsection \<open>Notions the statements use\<close>

text \<open>
  The digest an index stores under a pair of a name and a version, if any; and whether
  the index records, for the name, a version that parses and satisfies the constraint
  that the version argument reads as (the one parsed from \<^verbatim>\<open>*\<close> when it is empty).
\<close>

definition entry :: "Index \<Rightarrow> string \<Rightarrow> string \<Rightarrow> string option" where
  "entry i name version =
     (case fmlookup i name of None \<Rightarrow> None | Some vs \<Rightarrow> fmlookup vs version)"

definition resolves :: "('c, 'v) semver \<Rightarrow> Index \<Rightarrow> string \<Rightarrow> string \<Rightarrow> bool" where
  "resolves sv i name version \<longleftrightarrow>
     (\<exists>vs ver d c test. fmlookup i name = Some vs \<and> fmlookup vs ver = Some d \<and>
        NewConstraint sv (if version = [] then ''*'' else version) = Some c \<and>
        NewVersion sv ver = Some test \<and> Check sv c test)"

subsection \<open>An instance of the version library\<close>

text \<open>
  To run the definitions on concrete indexes: the fragment of the library's syntax in
  which a version is \<^verbatim>\<open>MAJOR.MINOR.PATCH\<close>, three decimal numerals, with an optional
  leading \<^verbatim>\<open>v\<close>, and a constraint is \<^verbatim>\<open>*\<close> (any version) or a version (that version
  only). The instance rejects every other string, among them the empty string and
  \<^verbatim>\<open>latest\<close>, which the library rejects as well.
\<close>

definition digit :: "char \<Rightarrow> bool" where
  "digit c \<longleftrightarrow> c \<in> set ''0123456789''"

definition numeral_of :: "string \<Rightarrow> nat option" where
  "numeral_of s =
     (if s \<noteq> [] \<and> list_all digit s
      then Some (foldl (\<lambda>n c. 10 * n + (of_char c - 48)) 0 s) else None)"

fun fields :: "string \<Rightarrow> string list" where
  "fields [] = [[]]"
| "fields (c # cs) =
     (if c = CHR ''.'' then [] # fields cs
      else (case fields cs of f # fs \<Rightarrow> (c # f) # fs | [] \<Rightarrow> [[c]]))"

definition parse_version :: "string \<Rightarrow> (nat \<times> nat \<times> nat) option" where
  "parse_version s =
     (case map numeral_of (fields (case s of c # cs \<Rightarrow> if c = CHR ''v'' then cs else s | [] \<Rightarrow> s)) of
        [Some major, Some minor, Some patch] \<Rightarrow> Some (major, minor, patch)
      | _ \<Rightarrow> None)"

datatype constraint = Any | Exactly "nat \<times> nat \<times> nat"

definition parse_constraint :: "string \<Rightarrow> constraint option" where
  "parse_constraint s = (if s = ''*'' then Some Any else map_option Exactly (parse_version s))"

fun check :: "constraint \<Rightarrow> nat \<times> nat \<times> nat \<Rightarrow> bool" where
  "check Any v = True"
| "check (Exactly w) v = (v = w)"

definition exact_semver :: "(constraint, nat \<times> nat \<times> nat) semver" where
  "exact_semver = \<lparr>NewConstraint = parse_constraint, NewVersion = parse_version, Check = check\<rparr>"

text \<open>Two orders a \<^verbatim>\<open>range\<close> can take: by ascending key, and by descending key.\<close>

definition ascending :: "(string, 'a) fmap \<Rightarrow> (string \<times> 'a) list" where
  "ascending m = sorted_list_of_fmap m"

definition descending :: "(string, 'a) fmap \<Rightarrow> (string \<times> 'a) list" where
  "descending m = rev (sorted_list_of_fmap m)"

subsection \<open>An instance of the decoder\<close>

text \<open>
  What the decoder does on the two shortest streams it accepts: on the empty stream it
  reports the end of the input and leaves the target as it is; on \<^verbatim>\<open>{}\<close> it reports no
  error and leaves a map that is not nil as it is. The instance rejects every other stream.
\<close>

definition shortest_streams :: "string \<Rightarrow> Index \<Rightarrow> Index \<times> decode_error option" where
  "shortest_streams r i =
     (if r = [] then (i, Some EOF) else if r = ''{}'' then (i, None) else (i, Some Malformed))"

subsection \<open>Concrete indexes\<close>

text \<open>The example index of the specification, and small ones beside it.\<close>

definition no_versions :: Index where
  "no_versions = fmupd ''known-name'' fmempty fmempty"


definition mybundle :: Index where
  "mybundle = fmupd ''mybundle'' (fmupd ''1.0.0'' ''sha256:aaa'' (fmupd ''1.2.0'' ''sha256:bbb'' fmempty)) fmempty"


definition pinned :: Index where
  "pinned = fmupd ''a'' (fmupd ''latest'' ''D1'' fmempty) fmempty"

definition incoming :: Index where
  "incoming = fmupd ''a'' (fmupd ''latest'' ''D2'' fmempty) fmempty"



section \<open>Properties of Get\<close>

lemma ranges_entry: "ranges r \<Longrightarrow> (k, v) \<in> set (r m) \<longleftrightarrow> fmlookup m k = Some v"
  by (metis ranges_def map_of_eq_Some_iff)

lemma Get_range_Inr:
  "Get_range sv constraint es = Inr digest \<Longrightarrow>
     \<exists>ver test c. (ver, digest) \<in> set es \<and> NewVersion sv ver = Some test \<and>
       constraint = Some c \<and> Check sv c test"
proof (induction es)
  case Nil
  then show ?case by simp
next
  case (Cons e es)
  obtain ver d where e: "e = (ver, d)" by (cases e)
  show ?case
  proof (cases "NewVersion sv ver")
    case None
    with Cons e show ?thesis by auto
  next
    case (Some test)
    with Cons e show ?thesis
      by (cases constraint) (auto split: if_splits)
  qed
qed

lemma distinct_sorted_list_of_fset: "distinct (sorted_list_of_fset S)"
  by (simp add: sorted_list_of_fset.rep_eq)

lemma distinct_keys_sorted_list_of_fmap: "distinct (map fst (sorted_list_of_fmap m))"
  by (simp add: sorted_list_of_fmap_def comp_def distinct_sorted_list_of_fset)


lemma ranges_extend:
  assumes "distinct (map fst es)" and "map_of es = fmlookup m"
  shows "ranges (\<lambda>m'. if m' = m then es else ascending m') \<and>
         (\<lambda>m'. if m' = m then es else ascending m') m = es"
proof -
  have "distinct (map fst (ascending m')) \<and> map_of (ascending m') = fmlookup m'"
    for m' :: "(string, 'a) fmap"
    by (simp add: ascending_def distinct_keys_sorted_list_of_fmap)
  with assms show ?thesis by (simp add: ranges_def)
qed

lemma map_of_rev_distinct: "distinct (map fst xs) \<Longrightarrow> map_of (rev xs) = map_of xs"
  by (rule map_of_inject_set[THEN iffD2]) (auto simp: rev_map[symmetric])

lemma ranges_descending: "ranges descending"
  unfolding ranges_def descending_def
  by (simp add: distinct_keys_sorted_list_of_fmap map_of_rev_distinct rev_map[symmetric])

lemma Get_range_found:
  assumes "(ver, d) \<in> set es" and "NewVersion sv ver = Some test" and "Check sv c test"
  shows "\<exists>digest. Get_range sv (Some c) es = Inr digest"
  using assms
proof (induction es)
  case Nil
  then show ?case by simp
next
  case (Cons e es)
  obtain ver' d' where e: "e = (ver', d')" by (cases e)
  show ?case
  proof (cases "NewVersion sv ver'")
    case None
    with Cons e show ?thesis by auto
  next
    case (Some t)
    with Cons e show ?thesis by (cases "Check sv c t") auto
  qed
qed


text \<open>
  C7. For every index and every version argument (empty, valid or invalid), \<^verbatim>\<open>Get\<close> of a
  name that is not a key of the index fails with \<open>ErrNoBundleName\<close>: the name is looked up
  before the constraint is parsed.
\<close>

theorem Get_unknown_name:
  "fmlookup i name = None \<Longrightarrow> Get sv r i name version = Inl ErrNoBundleName"
  by (simp add: Get_def)

theorem Get_unknown_name_witness:
  "fmlookup mybundle ''missing-name'' = None \<and>
   Get exact_semver ascending mybundle ''missing-name'' ''not-a-valid-constraint!!'' = Inl ErrNoBundleName"
proof -
  have h: "fmlookup mybundle ''missing-name'' = None" by (simp add: mybundle_def)
  show ?thesis using h Get_unknown_name[OF h] by simp
qed

lemma Get_Inr_entry:
  assumes "ranges r" and "Get sv r i name version = Inr digest"
  shows "\<exists>vs ver test c. fmlookup i name = Some vs \<and> fmlookup vs ver = Some digest \<and>
           NewVersion sv ver = Some test \<and>
           NewConstraint sv (if version = [] then ''*'' else version) = Some c \<and> Check sv c test"
proof -
  from assms(2) obtain vs where vs: "fmlookup i name = Some vs"
    by (auto simp: Get_def split: option.splits)
  show ?thesis
  proof (cases "version = []")
    case True
    with assms(2) vs have "Get_range sv (NewConstraint sv ''*'') (r vs) = Inr digest"
      by (auto simp: Get_def split: if_splits)
    from Get_range_Inr[OF this] vs True assms(1) show ?thesis
      by (auto simp: ranges_entry)
  next
    case False
    with assms(2) vs obtain c where c: "NewConstraint sv version = Some c"
      and "Get_range sv (Some c) (r vs) = Inr digest"
      by (auto simp: Get_def split: if_splits option.splits)
    from Get_range_Inr[OF this(2)] vs False c assms(1) show ?thesis
      by (auto simp: ranges_entry)
  qed
qed

text \<open>
  C10. Whatever order the loop takes, a digest that \<^verbatim>\<open>Get\<close> returns without error is
  the one the index stores for the name under some version key that parses as a version
  satisfying the constraint asked for (the one parsed from \<^verbatim>\<open>*\<close> when the version
  argument is empty). So no digest comes from an unparseable key or from nowhere.
\<close>

theorem Get_sound:
  assumes "ranges r" and "Get sv r i name version = Inr digest"
  shows "\<exists>vs ver test c. fmlookup i name = Some vs \<and> fmlookup vs ver = Some digest \<and>
           NewVersion sv ver = Some test \<and>
           NewConstraint sv (if version = [] then ''*'' else version) = Some c \<and> Check sv c test"
  using assms by (rule Get_Inr_entry)

theorem Get_sound_witness:
  "ranges descending \<and> Get exact_semver descending mybundle ''mybundle'' [] = Inr ''sha256:bbb'' \<and>
   (\<exists>vs ver test c. fmlookup mybundle ''mybundle'' = Some vs \<and> fmlookup vs ver = Some ''sha256:bbb'' \<and>
      NewVersion exact_semver ver = Some test \<and>
      NewConstraint exact_semver ''*'' = Some c \<and> Check exact_semver c test)"
proof -
  have g: "Get exact_semver descending mybundle ''mybundle'' [] = Inr ''sha256:bbb''"
    unfolding mybundle_def by code_simp
  show ?thesis using ranges_descending g Get_sound[OF ranges_descending g] by simp
qed

text \<open>
  C6, as stated, fails for a known name with no version recorded: the length check on the
  name's versions comes before the constraint is parsed, and the call fails with
  \<open>ErrNoBundleVersion\<close>.
\<close>

theorem Get_invalid_constraint_counterexample:
  "fmlookup no_versions ''known-name'' = Some fmempty \<and>
   ''not-a-valid-constraint!!'' \<noteq> [] \<and>
   NewConstraint exact_semver ''not-a-valid-constraint!!'' = None \<and>
   Get exact_semver ascending no_versions ''known-name''
     ''not-a-valid-constraint!!'' = Inl ErrNoBundleVersion"
  by code_simp

text \<open>
  C6, amended. If the name is a key of the index with at least one version recorded, and
  the version argument is non-empty and does not parse as a constraint, \<^verbatim>\<open>Get\<close> fails with
  the constraint parser's error and returns no digest.
\<close>

theorem Get_invalid_constraint:
  assumes "fmlookup i name = Some vs" and "vs \<noteq> fmempty"
    and "version \<noteq> []" and "NewConstraint sv version = None"
  shows "Get sv r i name version = Inl ErrConstraint"
  using assms by (simp add: Get_def)

theorem Get_invalid_constraint_witness:
  "Get exact_semver ascending mybundle ''mybundle'' ''not-a-valid-constraint!!'' = Inl ErrConstraint"
proof -
  have 1: "fmlookup mybundle ''mybundle'' = Some (fmupd ''1.0.0'' ''sha256:aaa'' (fmupd ''1.2.0'' ''sha256:bbb'' fmempty))"
    by (simp add: mybundle_def)
  have 2: "fmupd ''1.0.0'' ''sha256:aaa'' (fmupd ''1.2.0'' ''sha256:bbb'' fmempty) \<noteq> fmempty"
    by simp
  have 3: "''not-a-valid-constraint!!'' \<noteq> []" by simp
  have 4: "NewConstraint exact_semver ''not-a-valid-constraint!!'' = None" by code_simp
  show ?thesis by (rule Get_invalid_constraint[OF 1 2 3 4])
qed







section \<open>Properties of Has and Merge\<close>

lemma Get_range_no_panic: "Get_range sv (Some c) es \<noteq> Inl NilDereference"
  by (induction es) (auto split: option.splits if_splits)

lemma Get_no_panic:
  "NewConstraint sv ''*'' \<noteq> None \<Longrightarrow> Get sv r i name version \<noteq> Inl NilDereference"
  by (auto simp: Get_def Get_range_no_panic split: option.splits)

lemma Get_Inr_iff:
  assumes "ranges r"
  shows "(\<exists>d. Get sv r i name version = Inr d) \<longleftrightarrow> resolves sv i name version"
proof
  assume "\<exists>d. Get sv r i name version = Inr d"
  then obtain d where "Get sv r i name version = Inr d" ..
  from Get_Inr_entry[OF assms this] show "resolves sv i name version"
    unfolding resolves_def by blast
next
  assume "resolves sv i name version"
  then obtain vs ver d c test where h: "fmlookup i name = Some vs" "fmlookup vs ver = Some d"
    "NewConstraint sv (if version = [] then ''*'' else version) = Some c"
    "NewVersion sv ver = Some test" "Check sv c test"
    unfolding resolves_def by blast
  from h(2) have ne: "vs \<noteq> fmempty" by auto
  from assms h(2) have "(ver, d) \<in> set (r vs)" by (simp add: ranges_entry)
  from Get_range_found[OF this h(4,5)] obtain d' where "Get_range sv (Some c) (r vs) = Inr d'" ..
  with h(1,3) ne have "Get sv r i name version = Inr d'"
    by (cases "version = []") (simp_all add: Get_def)
  then show "\<exists>d. Get sv r i name version = Inr d" ..
qed

lemma Has_resolves:
  assumes "ranges r" and "NewConstraint sv ''*'' \<noteq> None"
  shows "Has sv r i name version = Inr (resolves sv i name version)"
proof (cases "Get sv r i name version")
  case (Inl e)
  with Get_no_panic[OF assms(2), of r i name version] have "e \<noteq> NilDereference" by auto
  with Inl have "Has sv r i name version = Inr False" by (cases e) (simp_all add: Has_def)
  moreover from Inl Get_Inr_iff[OF assms(1), of sv i name version] have "\<not> resolves sv i name version"
    by auto
  ultimately show ?thesis by simp
next
  case (Inr d)
  then have "Has sv r i name version = Inr True" by (simp add: Has_def)
  moreover from Inr Get_Inr_iff[OF assms(1), of sv i name version] have "resolves sv i name version"
    by auto
  ultimately show ?thesis by simp
qed


lemma entry_Add:
  "entry (Add i name version digest) name' version' =
     (if name' = name \<and> version' = version then Some digest else entry i name' version')"
  by (auto simp: entry_def Add_def split: option.splits)



lemma resolves_Add: "resolves sv i name version \<Longrightarrow> resolves sv (Add i name' version' digest') name version"
proof -
  assume "resolves sv i name version"
  then obtain vs ver d c test where h: "fmlookup i name = Some vs" "fmlookup vs ver = Some d"
    "NewConstraint sv (if version = [] then ''*'' else version) = Some c"
    "NewVersion sv ver = Some test" "Check sv c test"
    unfolding resolves_def by blast
  from h(1,2) have "entry i name ver = Some d" by (simp add: entry_def)
  then have "\<exists>d'. entry (Add i name' version' digest') name ver = Some d'"
    by (simp add: entry_Add)
  then obtain vs' d' where "fmlookup (Add i name' version' digest') name = Some vs'" "fmlookup vs' ver = Some d'"
    by (auto simp: entry_def split: option.splits)
  with h(3,4,5) show ?thesis unfolding resolves_def by blast
qed

text \<open>The loops as a left fold of the triples visited.\<close>

lemma fill_gaps_append:
  "fill_gaps sv hs i (xs @ ys) =
     (case fill_gaps sv hs i xs of Inl e \<Rightarrow> Inl e | Inr i' \<Rightarrow> fill_gaps sv hs i' ys)"
proof (induction xs arbitrary: i)
  case Nil
  then show ?case by simp
next
  case (Cons t xs)
  obtain name version digest where t: "t = (name, version, digest)" by (cases t)
  show ?case
    by (cases "Has sv (hs name version) i name version") (auto simp: t Cons split: bool.splits)
qed

lemma Merge_versions_fill_gaps:
  "Merge_versions sv hs name i es =
     fill_gaps sv hs i (map (\<lambda>(version, digest). (name, version, digest)) es)"
proof (induction es arbitrary: i)
  case Nil
  then show ?case by simp
next
  case (Cons e es)
  obtain version digest where e: "e = (version, digest)" by (cases e)
  show ?case
    by (cases "Has sv (hs name version) i name version") (auto simp: e Cons split: bool.splits)
qed

lemma Merge_names_fill_gaps:
  "Merge_names sv vr hs i ns =
     fill_gaps sv hs i (concat (map (\<lambda>(name, versionMap).
       map (\<lambda>(version, digest). (name, version, digest)) (vr name versionMap)) ns))"
proof (induction ns arbitrary: i)
  case Nil
  then show ?case by simp
next
  case (Cons n ns)
  obtain name versionMap where n: "n = (name, versionMap)" by (cases n)
  show ?case
    by (simp add: n fill_gaps_append Merge_versions_fill_gaps Cons split: sum.splits)
qed

lemma Merge_fill_gaps: "Merge sv nr vr hs i src = fill_gaps sv hs i (visited nr vr src)"
  by (simp add: Merge_def visited_def Merge_names_fill_gaps)






lemma Has_False_resolves:
  "ranges r \<Longrightarrow> Has sv r i name version = Inr False \<Longrightarrow> \<not> resolves sv i name version"
  using Get_Inr_iff[of r sv i name version]
  by (cases "Get sv r i name version") (auto simp: Has_def split: error.splits)


text \<open>What a run of the loop over a list of triples keeps and what it sets.\<close>

lemma fill_gaps_cases:
  assumes "fill_gaps sv hs i ((name, version, digest) # ts) = Inr i'"
  obtains "Has sv (hs name version) i name version = Inr True" and "fill_gaps sv hs i ts = Inr i'"
  | "Has sv (hs name version) i name version = Inr False"
    and "fill_gaps sv hs (Add i name version digest) ts = Inr i'"
  using assms
  by (cases "Has sv (hs name version) i name version") (auto split: bool.splits)







lemma fill_gaps_keeps_resolved:
  assumes "\<forall>name version. ranges (hs name version)"
  shows "fill_gaps sv hs i ts = Inr i' \<Longrightarrow> resolves sv i n v \<Longrightarrow> entry i' n v = entry i n v"
proof (induction ts arbitrary: i)
  case Nil
  then show ?case by simp
next
  case (Cons t ts)
  obtain name version digest where t: "t = (name, version, digest)" by (cases t)
  from Cons.prems(1)[unfolded t] show ?case
  proof (cases rule: fill_gaps_cases)
    case 1
    from Cons.IH[OF 1(2) Cons.prems(2)] show ?thesis .
  next
    case 2
    from Has_False_resolves[OF _ 2(1)] assms have "\<not> resolves sv i name version" by simp
    with Cons.prems(2) have "\<not> (n = name \<and> v = version)" by auto
    with Cons.IH[OF 2(2) resolves_Add[OF Cons.prems(2)]] show ?thesis by (simp add: entry_Add)
  qed
qed

lemma Merge_keeps_resolved:
  assumes "\<forall>name version. ranges (hs name version)"
    and "Merge sv nr vr hs i src = Inr i'" and "resolves sv i name version"
  shows "entry i' name version = entry i name version"
  using fill_gaps_keeps_resolved[OF assms(1) _ assms(3)] assms(2) by (simp add: Merge_fill_gaps)

text \<open>
  C2. The destination records \<open>D1\<close> under the pair (\<^verbatim>\<open>a\<close>, \<^verbatim>\<open>latest\<close>) and the source
  records \<open>D2\<close> under the same pair. \<^verbatim>\<open>latest\<close> does not parse as a constraint, so
  \<^verbatim>\<open>Has\<close> is false for the pair although the destination has it, and the merge
  overwrites \<open>D1\<close> with \<open>D2\<close>. (An entry for which \<^verbatim>\<open>Has\<close> holds is kept:
  \<open>Merge_keeps_resolved\<close>.)
\<close>

theorem Merge_overwrites_unparseable:
  "entry pinned ''a'' ''latest'' = Some ''D1'' \<and> entry incoming ''a'' ''latest'' = Some ''D2'' \<and>
   Merge exact_semver ascending (\<lambda>name. ascending) (\<lambda>name version. ascending) pinned incoming = Inr incoming \<and>
   entry incoming ''a'' ''latest'' \<noteq> entry pinned ''a'' ''latest''"
proof -
  have "Merge exact_semver ascending (\<lambda>name. ascending) (\<lambda>name version. ascending) pinned incoming = Inr incoming"
    unfolding pinned_def incoming_def by code_simp
  then show ?thesis by (simp add: entry_def pinned_def incoming_def)
qed






section \<open>Properties of loadIndex\<close>

text \<open>
  C8. On an empty stream the decoder reports \<^verbatim>\<open>io.EOF\<close> and stores nothing in its
  target. Then \<^verbatim>\<open>loadIndex\<close> of the empty stream returns the index with no name,
  and no error.
\<close>

theorem loadIndex_empty:
  assumes "Decode [] fmempty = (fmempty, Some EOF)"
  shows "loadIndex Decode [] = (fmempty, None)"
  using assms by (simp add: loadIndex_def)

theorem loadIndex_empty_witness:
  "shortest_streams [] fmempty = (fmempty, Some EOF) \<and> loadIndex shortest_streams [] = (fmempty, None)"
proof -
  have h: "shortest_streams [] fmempty = (fmempty, Some EOF)" by (simp add: shortest_streams_def)
  show ?thesis using h loadIndex_empty[of shortest_streams] by simp
qed

end
